theory Spec2Isabelle
  imports Complex_Main "HOL-Library.Multiset"
begin

section \<open>The 8-way RIL by selfing cross type (cross\_riself8.cpp)\<close>

subsection \<open>Values of type double\<close>

text \<open>
  A C++ \<^verbatim>\<open>double\<close> is modelled as an exact real number or one of the three special
  values of IEEE arithmetic.  Rounding, overflow to infinity and the sign of zero are
  not modelled: a finite result is the exact real result, and a zero is treated as
  \<open>+0\<close>.  The special values are kept because the code reaches them on ordinary
  inputs: \<^verbatim>\<open>log(0.0)\<close> is minus infinity, and the logarithm of a negative number
  is NaN.
\<close>

datatype dbl = Fin real | PInf | MInf | NaN

fun dneg :: "dbl \<Rightarrow> dbl" where
  "dneg (Fin a) = Fin (- a)"
| "dneg PInf = MInf"
| "dneg MInf = PInf"
| "dneg NaN = NaN"

fun dadd :: "dbl \<Rightarrow> dbl \<Rightarrow> dbl" where
  "dadd (Fin a) (Fin b) = Fin (a + b)"
| "dadd NaN y = NaN"
| "dadd x NaN = NaN"
| "dadd PInf MInf = NaN"
| "dadd MInf PInf = NaN"
| "dadd PInf y = PInf"
| "dadd x PInf = PInf"
| "dadd MInf y = MInf"
| "dadd x MInf = MInf"

text \<open>The product of an infinity and a finite value: NaN at zero, else by the sign.\<close>

definition inf_times :: "bool \<Rightarrow> real \<Rightarrow> dbl" where
  "inf_times positive a =
     (if a = 0 then NaN else if (0 < a) = positive then PInf else MInf)"

fun dmul :: "dbl \<Rightarrow> dbl \<Rightarrow> dbl" where
  "dmul (Fin a) (Fin b) = Fin (a * b)"
| "dmul NaN y = NaN"
| "dmul x NaN = NaN"
| "dmul (Fin a) PInf = inf_times True a"
| "dmul (Fin a) MInf = inf_times False a"
| "dmul PInf (Fin b) = inf_times True b"
| "dmul MInf (Fin b) = inf_times False b"
| "dmul PInf PInf = PInf"
| "dmul PInf MInf = MInf"
| "dmul MInf PInf = MInf"
| "dmul MInf MInf = PInf"

fun dlog :: "dbl \<Rightarrow> dbl" where
  "dlog (Fin a) = (if 0 < a then Fin (ln a) else if a = 0 then MInf else NaN)"
| "dlog PInf = PInf"
| "dlog MInf = NaN"
| "dlog NaN = NaN"

text \<open>
  The arithmetic operators of C++ on doubles, so that the expressions below read as in
  the source.
\<close>

instantiation dbl :: "{plus, minus, uminus, times}"
begin

definition plus_dbl :: "dbl \<Rightarrow> dbl \<Rightarrow> dbl" where
  "plus_dbl x y = dadd x y"

definition uminus_dbl :: "dbl \<Rightarrow> dbl" where
  "uminus_dbl x = dneg x"

definition minus_dbl :: "dbl \<Rightarrow> dbl \<Rightarrow> dbl" where
  "minus_dbl x y = dadd x (dneg y)"

definition times_dbl :: "dbl \<Rightarrow> dbl \<Rightarrow> dbl" where
  "times_dbl x y = dmul x y"

instance ..

end

subsection \<open>Errors, vectors and matrices\<close>

text \<open>
  \<open>Range_error\<close> is the \<^verbatim>\<open>std::range_error\<close> the code throws.  \<open>Out_of_bounds\<close>
  stands for a read outside an Rcpp vector: \<^verbatim>\<open>operator[]\<close> does not check its index,
  so the C++ behaviour there is undefined, and the model makes it a result of its own
  instead of returning some value.
\<close>

datatype error = Range_error string | Out_of_bounds

definition vget :: "'a list \<Rightarrow> int \<Rightarrow> error + 'a" where
  "vget xs i = (if 0 \<le> i \<and> i < int (length xs) then Inr (xs ! nat i) else Inl Out_of_bounds)"

definition bind_err :: "error + 'a \<Rightarrow> ('a \<Rightarrow> error + 'b) \<Rightarrow> error + 'b" where
  "bind_err m f = (case m of Inl e \<Rightarrow> Inl e | Inr x \<Rightarrow> f x)"

text \<open>Division of C++ \<^verbatim>\<open>int\<close>s truncates towards zero.\<close>

definition c_div :: "int \<Rightarrow> int \<Rightarrow> int" where
  "c_div a b = sgn a * sgn b * (\<bar>a\<bar> div \<bar>b\<bar>)"

text \<open>
  An Rcpp \<^verbatim>\<open>IntegerMatrix\<close>: its dimensions and its entries, stored column by column;
  entry \<open>(i, j)\<close> is at position \<open>i + j * nrow\<close>.
\<close>

record int_matrix =
  mrows :: nat
  mcols :: nat
  mdata :: "int list"

definition wf_matrix :: "int_matrix \<Rightarrow> bool" where
  "wf_matrix m = (length (mdata m) = mrows m * mcols m)"

definition mat_get :: "int_matrix \<Rightarrow> nat \<Rightarrow> nat \<Rightarrow> int" where
  "mat_get m i j = mdata m ! (i + j * mrows m)"

definition mat_row :: "int_matrix \<Rightarrow> nat \<Rightarrow> int list" where
  "mat_row m i = map (\<lambda>j. mat_get m i j) [0..<mcols m]"

text \<open>R's missing integer, \<^verbatim>\<open>NA_INTEGER\<close>, is the least 32-bit integer.\<close>

definition NA_INTEGER :: int where
  "NA_INTEGER = - 2147483648"

subsection \<open>Genotype codes and their check\<close>

text \<open>\<^verbatim>\<open>enum gen_riself8 {A=1, H=2, B=3, notA=5, notB=4}\<close>\<close>

definition gen_A :: int where "gen_A = 1"
definition gen_H :: int where "gen_H = 2"
definition gen_B :: int where "gen_B = 3"
definition gen_notA :: int where "gen_notA = 5"
definition gen_notB :: int where "gen_notB = 4"

definition check_geno :: "int \<Rightarrow> bool \<Rightarrow> bool \<Rightarrow> bool \<Rightarrow> int list \<Rightarrow> bool" where
  "check_geno gen is_observed_value is_x_chr is_female cross_info =
     (if is_observed_value then
        (if gen = 0 \<or> gen = gen_A \<or> gen = gen_H \<or> gen = gen_B \<or>
            gen = gen_notA \<or> gen = gen_notB then True else False)
      else
        (let n_geno = 8 in
         if gen \<ge> 1 \<and> gen \<le> n_geno then True else False))"

subsection \<open>The HMM probabilities\<close>

text \<open>
  The blocks under \<^verbatim>\<open>#ifndef RQTL2_NODEBUG\<close> are compiled only when that macro is
  undefined.  The header that decides it (r\_message.h) is outside the code verified
  here, so the macro is the parameter \<open>nodebug\<close> of each function that has such a block.
\<close>

definition init :: "bool \<Rightarrow> int \<Rightarrow> bool \<Rightarrow> bool \<Rightarrow> int list \<Rightarrow> error + dbl" where
  "init nodebug true_gen is_x_chr is_female cross_info =
     (if \<not> nodebug \<and> \<not> check_geno true_gen False is_x_chr is_female cross_info
      then Inl (Range_error ''genotype value not allowed'')
      else Inr (- dlog (Fin 8)))"

definition emit ::
  "bool \<Rightarrow> int \<Rightarrow> int \<Rightarrow> dbl \<Rightarrow> int list \<Rightarrow> bool \<Rightarrow> bool \<Rightarrow> int list \<Rightarrow> error + dbl" where
  "emit nodebug obs_gen true_gen error_prob founder_geno is_x_chr is_female cross_info =
     (if \<not> nodebug \<and> \<not> check_geno true_gen False is_x_chr is_female cross_info
      then Inl (Range_error ''genotype value not allowed'')
      else if obs_gen = 0 then Inr (Fin 0)
      else bind_err (vget founder_geno (true_gen - 1)) (\<lambda>f.
        if f \<noteq> 1 \<and> f \<noteq> 3 then Inr (Fin 0)
        else if f = obs_gen then Inr (dlog (Fin 1 - error_prob))
        else Inr (dlog error_prob)))"

text \<open>
  \<^verbatim>\<open>invert_founder_index\<close> is defined outside the code verified here;
  \<open>step\<close> takes it as its parameter \<open>ifi\<close>.
\<close>

definition step ::
  "bool \<Rightarrow> (int list \<Rightarrow> int list) \<Rightarrow> int \<Rightarrow> int \<Rightarrow> dbl \<Rightarrow> bool \<Rightarrow> bool \<Rightarrow> int list
     \<Rightarrow> error + dbl" where
  "step nodebug ifi gen_left gen_right rec_frac is_x_chr is_female cross_info =
     (if \<not> nodebug \<and>
         (\<not> check_geno gen_left False is_x_chr is_female cross_info \<or>
          \<not> check_geno gen_right False is_x_chr is_female cross_info)
      then Inl (Range_error ''genotype value not allowed'')
      else if gen_left = gen_right
      then Inr (Fin 2 * dlog (Fin 1 - rec_frac) - dlog (Fin 1 + Fin 2 * rec_frac))
      else
        (let founder_index = ifi cross_info in
         bind_err (vget founder_index (gen_left - 1)) (\<lambda>fl.
         bind_err (vget founder_index (gen_right - 1)) (\<lambda>fr.
           if c_div fl 2 = c_div fr 2
           then Inr (dlog rec_frac + dlog (Fin 1 - rec_frac) - dlog (Fin 1 + Fin 2 * rec_frac))
           else Inr (dlog rec_frac - dlog (Fin 2) - dlog (Fin 1 + Fin 2 * rec_frac))))))"

definition nrec :: "bool \<Rightarrow> int \<Rightarrow> int \<Rightarrow> bool \<Rightarrow> bool \<Rightarrow> int list \<Rightarrow> error + int" where
  "nrec nodebug gen_left gen_right is_x_chr is_female cross_info =
     (if \<not> nodebug \<and>
         (\<not> check_geno gen_left False is_x_chr is_female cross_info \<or>
          \<not> check_geno gen_right False is_x_chr is_female cross_info)
      then Inl (Range_error ''genotype value not allowed'')
      else if gen_left = gen_right then Inr 0 else Inr 1)"

text \<open>
  Modelled from the spec: \<^verbatim>\<open>invert_founder_index\<close>, whose code is missing.  The
  inverted founder-order index gives, for each founder, its (zero-based) position in
  the order of the cross: \<open>result[cross_info[i] - 1] = i\<close>.  It is used here only as
  a concrete value of the parameter \<open>ifi\<close>, on cross orders that are permutations.
\<close>

definition invert_founder_index :: "int list \<Rightarrow> int list" where
  "invert_founder_index cross_info =
     fold (\<lambda>i result. result[nat (cross_info ! i - 1) := int i])
          [0..<length cross_info] (replicate (length cross_info) 0)"

subsection \<open>Messages\<close>

text \<open>
  \<^verbatim>\<open>r_message\<close> prints a diagnostic and returns.  A function that calls it returns,
  beside its result, the list of the messages it printed, in order.
\<close>

definition check_handle_x_chr :: "bool \<Rightarrow> (error + bool) \<times> string list" where
  "check_handle_x_chr any_x_chr =
     (if any_x_chr then (Inr False, [''X chr ignored for RIL by selfing.''])
      else (Inr True, []))"

subsection \<open>Checking the cross information\<close>

text \<open>
  The counters \<open>n_missing\<close> and \<open>n_invalid\<close> and the entries of \<open>counts\<close> are C++
  \<^verbatim>\<open>int\<close>s of 32 bits.  An increment that leaves the range wraps around, as two's
  complement arithmetic does (the C++ standard leaves signed overflow undefined).
\<close>

definition wrap32 :: "int \<Rightarrow> int" where
  "wrap32 x = (x + 2147483648) mod 4294967296 - 2147483648"

text \<open>
  The three inner loops of \<open>check_crossinfo\<close> over the entries of one row: the first
  counts the missing and the out-of-range entries, the second counts how often each of
  the values \<open>1..n_col\<close> occurs, the third adds \<open>|count - 1|\<close> for each value (a
  count lies between 0 and the length of the row, so \<open>count - 1\<close> stays in range).
\<close>

fun scan_entries :: "int \<Rightarrow> int list \<Rightarrow> int \<times> int \<Rightarrow> int \<times> int" where
  "scan_entries n_col [] (n_missing, n_invalid) = (n_missing, n_invalid)"
| "scan_entries n_col (x # xs) (n_missing, n_invalid) =
     scan_entries n_col xs
       (if x = NA_INTEGER then (wrap32 (n_missing + 1), n_invalid)
        else if x < 1 \<or> x > n_col then (n_missing, wrap32 (n_invalid + 1))
        else (n_missing, n_invalid))"

fun count_values :: "int \<Rightarrow> int list \<Rightarrow> int list \<Rightarrow> int list" where
  "count_values n_col [] counts = counts"
| "count_values n_col (x # xs) counts =
     count_values n_col xs
       (if x \<ge> 1 \<and> x \<le> n_col
        then counts[nat (x - 1) := wrap32 (counts ! nat (x - 1) + 1)]
        else counts)"

fun add_deviations :: "int list \<Rightarrow> int \<Rightarrow> int" where
  "add_deviations [] n_invalid = n_invalid"
| "add_deviations (c # cs) n_invalid =
     add_deviations cs (if c \<noteq> 1 then wrap32 (n_invalid + \<bar>c - 1\<bar>) else n_invalid)"

text \<open>The body of the loop over the rows, on the entries of row \<open>i\<close>.\<close>

definition check_row :: "int \<Rightarrow> int list \<Rightarrow> int \<times> int \<Rightarrow> int \<times> int" where
  "check_row n_col row acc =
     (let (n_missing, n_invalid) = scan_entries n_col row acc;
          counts = count_values n_col row (replicate (nat n_col) 0)
      in (n_missing, add_deviations counts n_invalid))"

text \<open>The pair \<open>(n_missing, n_invalid)\<close> after the loop over the rows.\<close>

definition count_violations :: "int_matrix \<Rightarrow> int \<times> int" where
  "count_violations cross_info =
     fold (\<lambda>i acc. check_row (int (mcols cross_info)) (mat_row cross_info i) acc)
          [0..<mrows cross_info] (0, 0)"

definition msg_columns :: string where
  "msg_columns = ''cross_info should have 8 columns, indicating the order of the cross''"

definition msg_missing :: string where
  "msg_missing = ''cross_info has missing values (it shouldn't)''"

definition msg_invalid :: string where
  "msg_invalid =
     ''cross_info has invalid values; each row should be permutation of {1, 2, ..., 8}''"

definition check_crossinfo :: "int_matrix \<Rightarrow> bool \<Rightarrow> (error + bool) \<times> string list" where
  "check_crossinfo cross_info any_x_chr =
     (if mcols cross_info \<noteq> 8 then (Inr False, [msg_columns])
      else
        (let (n_missing, n_invalid) = count_violations cross_info;
             (result, msgs) = (True, []);
             (result, msgs) =
               (if n_missing > 0 then (False, msgs @ [msg_missing]) else (result, msgs));
             (result, msgs) =
               (if n_invalid > 0 then (False, msgs @ [msg_invalid]) else (result, msgs))
         in (Inr result, msgs)))"

text \<open>
  What the claims call a row that is a permutation of \<open>{1, ..., 8}\<close>, the rows with a
  missing entry, and the rows with a duplicate.
\<close>

definition is_permutation_1_8 :: "int list \<Rightarrow> bool" where
  "is_permutation_1_8 row = (distinct row \<and> set row = {1..8})"

definition has_missing :: "int list \<Rightarrow> bool" where
  "has_missing row = (NA_INTEGER \<in> set row)"


text \<open>What one row adds to each counter when nothing wraps.\<close>

definition row_missing :: "int list \<Rightarrow> int" where
  "row_missing row = int (length (filter (\<lambda>x. x = NA_INTEGER) row))"

definition row_invalid :: "int \<Rightarrow> int list \<Rightarrow> int" where
  "row_invalid n_col row =
     int (length (filter (\<lambda>x. x \<noteq> NA_INTEGER \<and> (x < 1 \<or> x > n_col)) row))
     + (\<Sum>k\<leftarrow>[0..<nat n_col]. \<bar>int (count_list row (int k + 1)) - 1\<bar>)"

subsection \<open>Example inputs\<close>

text \<open>
  Two cross information matrices of two individuals: in the first, one row has a
  duplicate and the other a missing entry; in the second, both rows are permutations.
  The third has \<open>2^27\<close> rows and every entry 9.
\<close>

definition bad_info :: int_matrix where
  "bad_info = \<lparr>mrows = 2, mcols = 8,
     mdata = [1, NA_INTEGER, 1, 2, 3, 3, 4, 4, 5, 5, 6, 6, 7, 7, 8, 8]\<rparr>"

definition good_info :: int_matrix where
  "good_info = \<lparr>mrows = 2, mcols = 8,
     mdata = [1, 8, 2, 7, 3, 6, 4, 5, 5, 4, 6, 3, 7, 2, 8, 1]\<rparr>"


subsection \<open>Auxiliary facts\<close>

lemmas dbl_ops = plus_dbl_def minus_dbl_def uminus_dbl_def times_dbl_def

lemma vget_in: "0 \<le> i \<Longrightarrow> i < int (length xs) \<Longrightarrow> vget xs i = Inr (xs ! nat i)"
  by (simp add: vget_def)

lemma vget_Inl: "vget xs i = Inl e \<Longrightarrow> e = Out_of_bounds"
  by (simp add: vget_def split: if_splits)

lemma bind_err_Inr: "bind_err (Inr x) f = f x"
  by (simp add: bind_err_def)

lemma bind_err_Inl: "bind_err (Inl e) f = Inl e"
  by (simp add: bind_err_def)

lemma check_geno_true: "1 \<le> g \<Longrightarrow> g \<le> 8 \<Longrightarrow> check_geno g False x f ci"
  by (simp add: check_geno_def)

lemma invert_identity:
  "invert_founder_index [1, 2, 3, 4, 5, 6, 7, 8] = [0, 1, 2, 3, 4, 5, 6, 7]"
  by (simp add: invert_founder_index_def upt_rec)

lemma ln_half: "ln (1 / 2 :: real) = - ln 2"
  by (simp add: ln_div)

lemma ln_8: "ln (8 :: real) = 3 * ln 2"
proof -
  have "ln (8 :: real) = ln (2 * (2 * 2))" by simp
  also have "\<dots> = 3 * ln 2" by (simp only: ln_mult) simp
  finally show ?thesis .
qed

lemma ln_4: "ln (4 :: real) = 2 * ln 2"
proof -
  have "ln (4 :: real) = ln (2 * 2)" by simp
  also have "\<dots> = 2 * ln 2" by (simp only: ln_mult) simp
  finally show ?thesis .
qed

lemma step_valid:
  assumes "0 \<le> r" "r \<le> 1/2" "1 \<le> gl" "gl \<le> 8" "1 \<le> gr" "gr \<le> 8"
    and "length (ifi cross_info) = 8"
  shows "step nodebug ifi gl gr (Fin r) is_x_chr is_female cross_info =
     Inr (if gl = gr then Fin (2 * ln (1 - r) - ln (1 + 2 * r))
          else if c_div (ifi cross_info ! nat (gl - 1)) 2 = c_div (ifi cross_info ! nat (gr - 1)) 2
          then (if r = 0 then MInf else Fin (ln r + ln (1 - r) - ln (1 + 2 * r)))
          else (if r = 0 then MInf else Fin (ln r - ln 2 - ln (1 + 2 * r))))"
proof -
  have l: "vget (ifi cross_info) (gl - 1) = Inr (ifi cross_info ! nat (gl - 1))"
    and r: "vget (ifi cross_info) (gr - 1) = Inr (ifi cross_info ! nat (gr - 1))"
    using assms by (simp_all add: vget_in)
  have pos: "0 < 1 - r" "0 < 1 + 2 * r" using assms by simp_all
  show ?thesis
    using assms pos
    by (simp add: step_def check_geno_true l r bind_err_Inr dbl_ops Let_def)
qed

text \<open>In a well-formed matrix every entry is read inside \<open>mdata\<close>.\<close>

lemma mat_get_in_range:
  assumes "wf_matrix m" "i < mrows m" "j < mcols m"
  shows "i + j * mrows m < length (mdata m)"
proof -
  have "i + j * mrows m < mrows m + j * mrows m" using assms(2) by simp
  also have "\<dots> = Suc j * mrows m" by simp
  also have "\<dots> \<le> mcols m * mrows m" using assms(3) by (intro mult_le_mono1) simp
  also have "\<dots> = length (mdata m)" using assms(1) by (simp add: wf_matrix_def mult.commute)
  finally show ?thesis .
qed

subsection \<open>The counters of check\_crossinfo\<close>

lemma wrap32_id: "- 2147483648 \<le> x \<Longrightarrow> x < 2147483648 \<Longrightarrow> wrap32 x = x"
  by (simp add: wrap32_def)


lemma mat_row_length: "length (mat_row m i) = mcols m"
  by (simp add: mat_row_def)

lemma row_missing_nonneg: "0 \<le> row_missing row"
  by (simp add: row_missing_def)

lemma row_missing_le: "row_missing row \<le> int (length row)"
  by (simp add: row_missing_def)

lemma row_invalid_nonneg: "0 \<le> row_invalid n row"
  by (auto simp: row_invalid_def intro!: add_nonneg_nonneg sum_list_nonneg)

lemma one_value_count:
  "(\<Sum>k\<leftarrow>[0..<n]. if x = int k + 1 then 1 else 0) = (if 1 \<le> x \<and> x \<le> int n then 1 else (0::int))"
  by (induction n) auto

lemma count_sum_in_range:
  "(\<Sum>k\<leftarrow>[0..<n]. int (count_list row (int k + 1)))
     = int (length (filter (\<lambda>x. 1 \<le> x \<and> x \<le> int n) row))"
proof (induction row)
  case Nil
  show ?case by simp
next
  case (Cons x xs)
  have "(\<Sum>k\<leftarrow>[0..<n]. int (count_list (x # xs) (int k + 1)))
      = (\<Sum>k\<leftarrow>[0..<n]. (if x = int k + 1 then 1 else 0) + int (count_list xs (int k + 1)))"
    by (intro arg_cong [where f = sum_list] map_cong refl) simp
  also have "\<dots> = (\<Sum>k\<leftarrow>[0..<n]. if x = int k + 1 then 1 else 0)
      + (\<Sum>k\<leftarrow>[0..<n]. int (count_list xs (int k + 1)))"
    by (simp add: sum_list_addf)
  finally show ?case
    using Cons.IH by (simp add: one_value_count)
qed

lemma row_invalid_le: "row_invalid (int n) row \<le> int (length row) + int n"
proof -
  have "(\<Sum>k\<leftarrow>[0..<n]. \<bar>int (count_list row (int k + 1)) - 1\<bar>)
      \<le> (\<Sum>k\<leftarrow>[0..<n]. int (count_list row (int k + 1)) + 1)"
    by (rule sum_list_mono) simp
  also have "\<dots> = int (length (filter (\<lambda>x. 1 \<le> x \<and> x \<le> int n) row)) + int n"
    by (simp add: sum_list_addf count_sum_in_range sum_list_triv)
  finally have dev: "(\<Sum>k\<leftarrow>[0..<n]. \<bar>int (count_list row (int k + 1)) - 1\<bar>)
      \<le> int (length (filter (\<lambda>x. 1 \<le> x \<and> x \<le> int n) row)) + int n" .
  have "length (filter (\<lambda>x. x \<noteq> NA_INTEGER \<and> (x < 1 \<or> x > int n)) row)
      + length (filter (\<lambda>x. 1 \<le> x \<and> x \<le> int n) row) \<le> length row"
    by (induction row) auto
  then show ?thesis
    using dev by (simp add: row_invalid_def)
qed

text \<open>
  While a counter stays below \<open>2^31\<close> no increment wraps, and each loop adds what the
  row holds.
\<close>

lemma scan_entries_eq:
  assumes "0 \<le> nm" "0 \<le> ni"
    and "nm + int (length row) < 2147483648" "ni + int (length row) < 2147483648"
  shows "scan_entries n row (nm, ni) =
     (nm + row_missing row,
      ni + int (length (filter (\<lambda>x. x \<noteq> NA_INTEGER \<and> (x < 1 \<or> x > n)) row)))"
  using assms
proof (induction row arbitrary: nm ni)
  case Nil
  then show ?case by (simp add: row_missing_def)
next
  case (Cons x xs)
  have m: "wrap32 (nm + 1) = nm + 1" and i: "wrap32 (ni + 1) = ni + 1"
    using Cons.prems by (simp_all add: wrap32_id)
  show ?case
  proof (cases "x = NA_INTEGER")
    case True
    then show ?thesis
      using Cons.prems Cons.IH [of "nm + 1" ni] by (simp add: m row_missing_def)
  next
    case False
    show ?thesis
    proof (cases "x < 1 \<or> x > n")
      case True
      then show ?thesis
        using False Cons.prems Cons.IH [of nm "ni + 1"] by (simp add: i row_missing_def)
    next
      case inr: False
      then show ?thesis
        using False Cons.prems Cons.IH [of nm ni] by (simp add: row_missing_def)
    qed
  qed
qed

lemma count_values_length: "length (count_values n row counts) = length counts"
  by (induction row arbitrary: counts) auto

lemma count_values_nth:
  assumes "k < nat n" "length counts = nat n"
    and "\<forall>j<nat n. 0 \<le> counts ! j \<and> counts ! j + int (length row) < 2147483648"
  shows "count_values n row counts ! k = counts ! k + int (count_list row (int k + 1))"
  using assms
proof (induction row arbitrary: counts)
  case Nil
  then show ?case by simp
next
  case (Cons x xs)
  show ?case
  proof (cases "x \<ge> 1 \<and> x \<le> n")
    case True
    let ?i = "nat (x - 1)"
    let ?c = "counts[?i := counts ! ?i + 1]"
    have i: "?i < nat n" using True by auto
    have "0 \<le> counts ! ?i" "counts ! ?i + 1 < 2147483648"
      using Cons.prems(3) [rule_format, of ?i] i by simp_all
    then have w: "wrap32 (counts ! ?i + 1) = counts ! ?i + 1"
      by (simp add: wrap32_id)
    have inv: "\<forall>j<nat n. 0 \<le> ?c ! j \<and> ?c ! j + int (length xs) < 2147483648"
    proof (intro allI impI)
      fix j
      assume j: "j < nat n"
      have "0 \<le> counts ! j" "counts ! j + int (length (x # xs)) < 2147483648"
        using Cons.prems(3) [rule_format, OF j] by simp_all
      then show "0 \<le> ?c ! j \<and> ?c ! j + int (length xs) < 2147483648"
        using j Cons.prems(2) by (cases "j = ?i") simp_all
    qed
    have "count_values n (x # xs) counts ! k = ?c ! k + int (count_list xs (int k + 1))"
      using True w Cons.prems(1,2) Cons.IH [of ?c, OF _ _ inv] by simp
    moreover have "?c ! k = counts ! k + (if x = int k + 1 then 1 else 0)"
      using True Cons.prems by (auto simp: nth_list_update)
    ultimately show ?thesis by simp
  next
    case False
    then have "x \<noteq> int k + 1" using Cons.prems by auto
    moreover have "count_values n (x # xs) counts = count_values n xs counts"
      using False by auto
    moreover have "\<forall>j<nat n. 0 \<le> counts ! j \<and> counts ! j + int (length xs) < 2147483648"
      using Cons.prems(3) by auto
    ultimately show ?thesis using Cons.prems(1,2) Cons.IH [of counts] by simp
  qed
qed

lemma count_values_replicate:
  assumes "int (length row) < 2147483648"
  shows "count_values n row (replicate (nat n) 0) =
     map (\<lambda>k. int (count_list row (int k + 1))) [0..<nat n]"
  using assms
  by (intro nth_equalityI) (simp_all add: count_values_length count_values_nth)

lemma add_deviations_eq:
  assumes "0 \<le> ni" "ni + (\<Sum>c\<leftarrow>cs. \<bar>c - 1\<bar>) < 2147483648"
  shows "add_deviations cs ni = ni + (\<Sum>c\<leftarrow>cs. \<bar>c - 1\<bar>)"
  using assms
proof (induction cs arbitrary: ni)
  case Nil
  then show ?case by simp
next
  case (Cons c cs)
  have nn: "0 \<le> (\<Sum>c\<leftarrow>cs. \<bar>c - 1\<bar>)" by (rule sum_list_nonneg) auto
  have w: "wrap32 (ni + \<bar>c - 1\<bar>) = ni + \<bar>c - 1\<bar>"
    using Cons.prems nn by (intro wrap32_id) simp_all
  show ?case
  proof (cases "c = 1")
    case True
    then show ?thesis using Cons.prems Cons.IH [of ni] by simp
  next
    case False
    then show ?thesis
      using Cons.prems nn Cons.IH [of "ni + \<bar>c - 1\<bar>"] by (simp add: w)
  qed
qed

lemma check_row_eq:
  assumes "0 \<le> nm" "0 \<le> ni"
    and "nm + int (length row) < 2147483648"
    and "ni + int (length row) + int n < 2147483648"
  shows "check_row (int n) row (nm, ni) = (nm + row_missing row, ni + row_invalid (int n) row)"
proof -
  let ?oor = "int (length (filter (\<lambda>x. x \<noteq> NA_INTEGER \<and> (x < 1 \<or> x > int n)) row))"
  let ?dev = "(\<Sum>k\<leftarrow>[0..<n]. \<bar>int (count_list row (int k + 1)) - 1\<bar>)"
  have inv: "row_invalid (int n) row = ?oor + ?dev" by (simp add: row_invalid_def)
  have le: "?oor + ?dev \<le> int (length row) + int n"
    using row_invalid_le [of n row] by (simp add: inv)
  have scan: "scan_entries (int n) row (nm, ni) = (nm + row_missing row, ni + ?oor)"
    using assms by (intro scan_entries_eq) simp_all
  have counts: "count_values (int n) row (replicate n 0) =
      map (\<lambda>k. int (count_list row (int k + 1))) [0..<n]"
    using assms(2,4) count_values_replicate [of row "int n"] by simp
  have "add_deviations (map (\<lambda>k. int (count_list row (int k + 1))) [0..<n]) (ni + ?oor)
      = ni + ?oor + ?dev"
    using assms(2,4) le add_deviations_eq [of "ni + ?oor"
        "map (\<lambda>k. int (count_list row (int k + 1))) [0..<n]"]
    by (simp add: comp_def)
  then show ?thesis
    by (simp add: check_row_def scan counts inv)
qed

lemma fold_check_row:
  assumes "\<forall>i\<in>set is. length (f i) = L" "0 \<le> nm" "0 \<le> ni"
    and "nm + int L * int (length is) < 2147483648"
    and "ni + (int L + int n) * int (length is) < 2147483648"
  shows "fold (\<lambda>i acc. check_row (int n) (f i) acc) is (nm, ni) =
     (nm + (\<Sum>i\<leftarrow>is. row_missing (f i)), ni + (\<Sum>i\<leftarrow>is. row_invalid (int n) (f i)))"
  using assms
proof (induction "is" arbitrary: nm ni)
  case Nil
  then show ?case by simp
next
  case (Cons i "is")
  have len: "length (f i) = L" using Cons.prems(1) by simp
  have rest: "0 \<le> int L * int (length is)" "0 \<le> (int L + int n) * int (length is)"
    by simp_all
  have b1: "nm + int L + int L * int (length is) < 2147483648"
    and b2: "ni + (int L + int n) + (int L + int n) * int (length is) < 2147483648"
    using Cons.prems(4,5) by (simp_all add: algebra_simps)
  have c1: "nm + int (length (f i)) < 2147483648"
    and c2: "ni + int (length (f i)) + int n < 2147483648"
    unfolding len using b1 b2 rest by linarith+
  have row: "check_row (int n) (f i) (nm, ni) =
      (nm + row_missing (f i), ni + row_invalid (int n) (f i))"
    using Cons.prems(2,3) c1 c2 by (rule check_row_eq)
  have m: "0 \<le> row_missing (f i)" "row_missing (f i) \<le> int L"
    using row_missing_nonneg [of "f i"] row_missing_le [of "f i"] by (simp_all add: len)
  have v: "0 \<le> row_invalid (int n) (f i)" "row_invalid (int n) (f i) \<le> int L + int n"
    using row_invalid_nonneg [of "int n" "f i"] row_invalid_le [of n "f i"] by (simp_all add: len)
  have d1: "nm + row_missing (f i) + int L * int (length is) < 2147483648"
    and d2: "ni + row_invalid (int n) (f i) + (int L + int n) * int (length is) < 2147483648"
    using b1 b2 m v by linarith+
  have "fold (\<lambda>i acc. check_row (int n) (f i) acc) is
          (nm + row_missing (f i), ni + row_invalid (int n) (f i)) =
        (nm + row_missing (f i) + (\<Sum>i\<leftarrow>is. row_missing (f i)),
         ni + row_invalid (int n) (f i) + (\<Sum>i\<leftarrow>is. row_invalid (int n) (f i)))"
    using Cons.prems(1,2,3) m v d1 d2 by (intro Cons.IH) simp_all
  then show ?case by (simp add: row add.assoc)
qed

lemma count_violations_eq:
  assumes "mcols m = 8" "mrows m < 134217728"
  shows "count_violations m =
     (\<Sum>i\<leftarrow>[0..<mrows m]. row_missing (mat_row m i),
      \<Sum>i\<leftarrow>[0..<mrows m]. row_invalid 8 (mat_row m i))"
  using assms fold_check_row [of "[0..<mrows m]" "mat_row m" 8 0 0 8]
  by (simp add: count_violations_def mat_row_length)






lemma perm_no_missing: "is_permutation_1_8 row \<Longrightarrow> \<not> has_missing row"
  by (auto simp: is_permutation_1_8_def has_missing_def NA_INTEGER_def)





text \<open>
  With fewer than \<open>2^27\<close> rows the counters stay within the range of a 32-bit
  \<^verbatim>\<open>int\<close>: each row adds at most 8 to the first and at most 16 to the second.
\<close>

lemma sum_list_bounded:
  fixes f :: "nat \<Rightarrow> int"
  assumes "\<And>i. f i \<le> c"
  shows "(\<Sum>i\<leftarrow>[0..<n]. f i) \<le> int n * c"
proof (induction n)
  case 0
  show ?case by simp
next
  case (Suc n)
  then show ?case using assms [of n] by (simp add: algebra_simps)
qed

lemma counters_bounded:
  assumes "mcols m = 8" "mrows m < 134217728"
  shows "0 \<le> fst (count_violations m)" "fst (count_violations m) \<le> 8 * int (mrows m)"
    "0 \<le> snd (count_violations m)" "snd (count_violations m) \<le> 16 * int (mrows m)"
proof -
  have "row_missing (mat_row m i) \<le> 8" for i
    using row_missing_le [of "mat_row m i"] assms(1) by (simp add: mat_row_length)
  then show "fst (count_violations m) \<le> 8 * int (mrows m)"
    using sum_list_bounded [of "\<lambda>i. row_missing (mat_row m i)" 8 "mrows m"] assms
    by (simp add: count_violations_eq)
  have "row_invalid 8 (mat_row m i) \<le> 16" for i
    using row_invalid_le [of 8 "mat_row m i"] assms(1) by (simp add: mat_row_length)
  then show "snd (count_violations m) \<le> 16 * int (mrows m)"
    using sum_list_bounded [of "\<lambda>i. row_invalid 8 (mat_row m i)" 16 "mrows m"] assms
    by (simp add: count_violations_eq)
  show "0 \<le> fst (count_violations m)"
    using assms by (auto simp: count_violations_eq row_missing_nonneg intro!: sum_list_nonneg)
  show "0 \<le> snd (count_violations m)"
    using assms by (auto simp: count_violations_eq row_invalid_nonneg intro!: sum_list_nonneg)
qed




lemma check_crossinfo_example:
  "count_violations bad_info = (1, 3)"
  "check_crossinfo bad_info False = (Inr False, [msg_missing, msg_invalid])"
  "count_violations good_info = (0, 0)"
  "check_crossinfo good_info False = (Inr True, [])"
proof -
  have dims: "mrows bad_info = 2" "mcols bad_info = 8" "mrows good_info = 2" "mcols good_info = 8"
    by (simp_all add: bad_info_def good_info_def)
  show b: "count_violations bad_info = (1, 3)"
    by code_simp
  show g: "count_violations good_info = (0, 0)"
    by code_simp
  show "check_crossinfo bad_info False = (Inr False, [msg_missing, msg_invalid])"
    by (simp add: check_crossinfo_def dims b)
  show "check_crossinfo good_info False = (Inr True, [])"
    by (simp add: check_crossinfo_def dims g)
qed





section \<open>Properties\<close>


text \<open>
  C9: for an observed value, \<open>check_geno\<close> accepts exactly the codes 0 to 5; the codes
  6, 7 and 8, valid as true genotypes, are rejected as observed values.
\<close>

theorem check_geno_observed:
  "(check_geno gen True is_x_chr is_female cross_info \<longleftrightarrow> gen \<in> {0, 1, 2, 3, 4, 5})
   \<and> \<not> check_geno 6 True is_x_chr is_female cross_info
   \<and> \<not> check_geno 7 True is_x_chr is_female cross_info
   \<and> \<not> check_geno 8 True is_x_chr is_female cross_info
   \<and> check_geno 6 False is_x_chr is_female cross_info
   \<and> check_geno 7 False is_x_chr is_female cross_info
   \<and> check_geno 8 False is_x_chr is_female cross_info"
  by (auto simp: check_geno_def gen_A_def gen_H_def gen_B_def gen_notA_def gen_notB_def)

text \<open>
  C8: \<open>check_handle_x_chr\<close> never throws.  With X chromosome data it returns false and
  prints one diagnostic message; without, it returns true and prints nothing.
\<close>

theorem check_handle_x_chr_no_throw:
  "check_handle_x_chr True = (Inr False, [''X chr ignored for RIL by selfing.''])
   \<and> check_handle_x_chr False = (Inr True, [])
   \<and> (\<forall>e. fst (check_handle_x_chr any_x_chr) \<noteq> Inl e)"
  by (simp add: check_handle_x_chr_def)

text \<open>
  C4: for a true genotype \<open>g\<close> in \<open>1..8\<close>, a founder panel with its 8 founders and an
  error probability \<open>e\<close> in \<open>[0, 1)\<close>, \<open>emit\<close> returns 0 when the observed genotype is
  0 (missing); 0 when the allele of founder \<open>g\<close> is neither 1 nor 3; \<open>log(1 - e)\<close> when
  that allele is the observed call; and \<open>log(e)\<close> otherwise, which is minus infinity
  at \<open>e = 0\<close>.
\<close>

theorem emit_contract:
  assumes "1 \<le> g" "g \<le> 8" "0 \<le> e" "e < 1" "obs = 0 \<or> length founder_geno = 8"
  shows "emit nodebug obs g (Fin e) founder_geno is_x_chr is_female cross_info =
     Inr (if obs = 0 then Fin 0
          else if founder_geno ! nat (g - 1) \<noteq> 1 \<and> founder_geno ! nat (g - 1) \<noteq> 3 then Fin 0
          else if founder_geno ! nat (g - 1) = obs then Fin (ln (1 - e))
          else if e = 0 then MInf else Fin (ln e))"
proof (cases "obs = 0")
  case True
  then show ?thesis using assms by (simp add: emit_def check_geno_true)
next
  case False
  with assms have len: "length founder_geno = 8" by simp
  have "vget founder_geno (g - 1) = Inr (founder_geno ! nat (g - 1))"
    using assms len by (simp add: vget_in)
  then show ?thesis
    using assms False by (simp add: emit_def check_geno_true bind_err_Inr dbl_ops)
qed

theorem emit_contract_witness:
  "emit False 1 2 (Fin (1/100)) [1, 3, 1, 0, 3, 1, 1, 3] False False [1, 2, 3, 4, 5, 6, 7, 8]
     = Inr (Fin (ln (1/100)))
   \<and> emit False 3 2 (Fin (1/100)) [1, 3, 1, 0, 3, 1, 1, 3] False False [1, 2, 3, 4, 5, 6, 7, 8]
     = Inr (Fin (ln (99/100)))
   \<and> emit False 3 4 (Fin (1/100)) [1, 3, 1, 0, 3, 1, 1, 3] False False [1, 2, 3, 4, 5, 6, 7, 8]
     = Inr (Fin 0)
   \<and> emit False 0 4 (Fin (1/100)) [] False False [1, 2, 3, 4, 5, 6, 7, 8]
     = Inr (Fin 0)
   \<and> emit False 1 2 (Fin 0) [1, 3, 1, 0, 3, 1, 1, 3] False False [1, 2, 3, 4, 5, 6, 7, 8]
     = Inr MInf"
  using
    emit_contract [of 2 "1/100" 1 "[1, 3, 1, 0, 3, 1, 1, 3]" False False False "[1, 2, 3, 4, 5, 6, 7, 8]"]
    emit_contract [of 2 "1/100" 3 "[1, 3, 1, 0, 3, 1, 1, 3]" False False False "[1, 2, 3, 4, 5, 6, 7, 8]"]
    emit_contract [of 4 "1/100" 3 "[1, 3, 1, 0, 3, 1, 1, 3]" False False False "[1, 2, 3, 4, 5, 6, 7, 8]"]
    emit_contract [of 4 "1/100" 0 "[]" False False False "[1, 2, 3, 4, 5, 6, 7, 8]"]
    emit_contract [of 2 0 1 "[1, 3, 1, 0, 3, 1, 1, 3]" False False False "[1, 2, 3, 4, 5, 6, 7, 8]"]
  by simp

text \<open>
  C10: when the allele of the true genotype's founder is present (1 or 3) and the
  observed genotype is one of the ambiguous codes H = 2, notB = 4, notA = 5, \<open>emit\<close>
  returns \<open>log(error_prob)\<close>.
\<close>

theorem emit_ambiguous_obs:
  assumes "1 \<le> g" "g \<le> 8" "length founder_geno = 8"
    and "founder_geno ! nat (g - 1) = 1 \<or> founder_geno ! nat (g - 1) = 3"
    and "obs = gen_H \<or> obs = gen_notB \<or> obs = gen_notA"
  shows "emit nodebug obs g error_prob founder_geno is_x_chr is_female cross_info =
     Inr (dlog error_prob)"
proof -
  have "vget founder_geno (g - 1) = Inr (founder_geno ! nat (g - 1))"
    using assms by (simp add: vget_in)
  then show ?thesis
    using assms
    by (auto simp: emit_def check_geno_true bind_err_Inr gen_H_def gen_notB_def gen_notA_def)
qed

theorem emit_ambiguous_obs_witness:
  "emit False gen_notB 2 (Fin (1/100)) [1, 3, 1, 0, 3, 1, 1, 3] False False [1, 2, 3, 4, 5, 6, 7, 8]
     = Inr (Fin (ln (1/100)))
   \<and> emit False gen_H 1 (Fin (1/100)) [1, 3, 1, 0, 3, 1, 1, 3] False False [1, 2, 3, 4, 5, 6, 7, 8]
     = Inr (Fin (ln (1/100)))"
  using emit_ambiguous_obs [of 2 "[1, 3, 1, 0, 3, 1, 1, 3]" gen_notB False "Fin (1/100)" False False
      "[1, 2, 3, 4, 5, 6, 7, 8]"]
    emit_ambiguous_obs [of 1 "[1, 3, 1, 0, 3, 1, 1, 3]" gen_H False "Fin (1/100)" False False
      "[1, 2, 3, 4, 5, 6, 7, 8]"]
  by simp

text \<open>
  C1: for \<open>r\<close> in \<open>[0, 1/2]\<close> and true genotypes in \<open>1..8\<close>, with an inverted founder
  index of 8 entries, \<open>step\<close> returns \<open>2 log(1-r) - log(1+2r)\<close> for equal genotypes,
  \<open>log(r) + log(1-r) - log(1+2r)\<close> when the entries of the two genotypes in the
  inverted founder index agree after integer division by 2, and
  \<open>log(r) - log(2) - log(1+2r)\<close> otherwise.  At \<open>r = 0\<close> the last two are minus
  infinity, as \<open>log(0)\<close> is.
\<close>

theorem step_formula:
  assumes "0 \<le> r" "r \<le> 1/2" "1 \<le> gl" "gl \<le> 8" "1 \<le> gr" "gr \<le> 8"
    and "length (ifi cross_info) = 8"
  shows "step nodebug ifi gl gr (Fin r) is_x_chr is_female cross_info =
     Inr (if gl = gr then Fin (2 * ln (1 - r) - ln (1 + 2 * r))
          else if c_div (ifi cross_info ! nat (gl - 1)) 2 = c_div (ifi cross_info ! nat (gr - 1)) 2
          then (if r = 0 then MInf else Fin (ln r + ln (1 - r) - ln (1 + 2 * r)))
          else (if r = 0 then MInf else Fin (ln r - ln 2 - ln (1 + 2 * r))))"
  using assms by (rule step_valid)

theorem step_formula_witness:
  "step False invert_founder_index 1 2 (Fin (1/4)) False False [1, 2, 3, 4, 5, 6, 7, 8]
     = Inr (Fin (ln (1/4) + ln (3/4) - ln (3/2)))
   \<and> step False invert_founder_index 1 3 (Fin (1/4)) False False [1, 2, 3, 4, 5, 6, 7, 8]
     = Inr (Fin (ln (1/4) - ln 2 - ln (3/2)))
   \<and> step False invert_founder_index 3 3 (Fin (1/4)) False False [1, 2, 3, 4, 5, 6, 7, 8]
     = Inr (Fin (2 * ln (3/4) - ln (3/2)))
   \<and> step False invert_founder_index 1 3 (Fin 0) False False [1, 2, 3, 4, 5, 6, 7, 8] = Inr MInf"
  using step_formula [of "1/4" 1 2 invert_founder_index "[1, 2, 3, 4, 5, 6, 7, 8]" False False False]
    step_formula [of "1/4" 1 3 invert_founder_index "[1, 2, 3, 4, 5, 6, 7, 8]" False False False]
    step_formula [of "1/4" 3 3 invert_founder_index "[1, 2, 3, 4, 5, 6, 7, 8]" False False False]
    step_formula [of 0 1 3 invert_founder_index "[1, 2, 3, 4, 5, 6, 7, 8]" False False False]
  by (simp add: invert_identity c_div_def)

text \<open>
  C3, as the claim states it, fails: at \<open>r = 1/2\<close> the value of \<open>step\<close> is not
  \<open>-log(4)\<close>.
\<close>

theorem step_half_counterexample:
  "step False invert_founder_index 1 1 (Fin (1/2)) False False [1, 2, 3, 4, 5, 6, 7, 8]
     \<noteq> Inr (Fin (- ln 4))"
proof -
  have "ln (2 :: real) > 0" by simp
  then show ?thesis
    by (simp add: step_def check_geno_def dbl_ops ln_half ln_4)
qed

text \<open>
  C3, amended: at \<open>r = 1/2\<close> the three branches of \<open>step\<close> give the same value, and
  that value is \<open>-log(8)\<close>.
\<close>

theorem step_half:
  assumes "1 \<le> gl" "gl \<le> 8" "1 \<le> gr" "gr \<le> 8" "length (ifi cross_info) = 8"
  shows "step nodebug ifi gl gr (Fin (1/2)) is_x_chr is_female cross_info = Inr (Fin (- ln 8))"
  using step_valid [where r = "1/2" and gl = gl and gr = gr and ifi = ifi] assms
  by (simp add: ln_half ln_8)

theorem step_half_witness:
  "step False invert_founder_index 1 1 (Fin (1/2)) False False [1, 2, 3, 4, 5, 6, 7, 8]
     = Inr (Fin (- ln 8))
   \<and> step False invert_founder_index 1 2 (Fin (1/2)) False False [1, 2, 3, 4, 5, 6, 7, 8]
     = Inr (Fin (- ln 8))
   \<and> step False invert_founder_index 1 3 (Fin (1/2)) False False [1, 2, 3, 4, 5, 6, 7, 8]
     = Inr (Fin (- ln 8))"
  using step_half [of 1 1 invert_founder_index "[1, 2, 3, 4, 5, 6, 7, 8]" False False False]
    step_half [of 1 2 invert_founder_index "[1, 2, 3, 4, 5, 6, 7, 8]" False False False]
    step_half [of 1 3 invert_founder_index "[1, 2, 3, 4, 5, 6, 7, 8]" False False False]
  by (simp add: invert_identity)

text \<open>
  C6: for \<open>r\<close> strictly between 0 and 1/2 and one cross order, the value of \<open>step\<close> on a
  pair of equal genotypes is at least its value on a pair of genotypes with sibling
  founders, which is at least its value on a pair with founders that are not siblings.
\<close>

theorem step_order:
  assumes r: "0 < r" "r < 1/2"
    and len: "length (ifi cross_info) = 8"
    and g: "1 \<le> g" "g \<le> 8"
    and s: "1 \<le> sl" "sl \<le> 8" "1 \<le> sr" "sr \<le> 8" "sl \<noteq> sr"
      "c_div (ifi cross_info ! nat (sl - 1)) 2 = c_div (ifi cross_info ! nat (sr - 1)) 2"
    and n: "1 \<le> nl" "nl \<le> 8" "1 \<le> nr" "nr \<le> 8" "nl \<noteq> nr"
      "c_div (ifi cross_info ! nat (nl - 1)) 2 \<noteq> c_div (ifi cross_info ! nat (nr - 1)) 2"
  shows "\<exists>a b c.
      step nodebug ifi g g (Fin r) is_x_chr is_female cross_info = Inr (Fin a)
    \<and> step nodebug ifi sl sr (Fin r) is_x_chr is_female cross_info = Inr (Fin b)
    \<and> step nodebug ifi nl nr (Fin r) is_x_chr is_female cross_info = Inr (Fin c)
    \<and> a \<ge> b \<and> b \<ge> c"
proof -
  have r': "0 \<le> r" "r \<le> 1/2" "r \<noteq> 0" using r by simp_all
  have a: "step nodebug ifi g g (Fin r) is_x_chr is_female cross_info
      = Inr (Fin (2 * ln (1 - r) - ln (1 + 2 * r)))"
    using step_valid [where gl = g and gr = g and r = r and ifi = ifi] r' g len by simp
  have b: "step nodebug ifi sl sr (Fin r) is_x_chr is_female cross_info
      = Inr (Fin (ln r + ln (1 - r) - ln (1 + 2 * r)))"
    using step_valid [where gl = sl and gr = sr and r = r and ifi = ifi] r' s len by simp
  have c: "step nodebug ifi nl nr (Fin r) is_x_chr is_female cross_info
      = Inr (Fin (ln r - ln 2 - ln (1 + 2 * r)))"
    using step_valid [where gl = nl and gr = nr and r = r and ifi = ifi] r' n len by simp
  have "ln r \<le> ln (1 - r)" using r by simp
  moreover have "ln (1 / 2) \<le> ln (1 - r)" using r by (subst ln_le_cancel_iff) simp_all
  ultimately show ?thesis
    unfolding a b c by (simp add: ln_half)
qed

theorem step_order_witness:
  "\<exists>a b c.
      step False invert_founder_index 5 5 (Fin (1/4)) False False [1, 2, 3, 4, 5, 6, 7, 8]
        = Inr (Fin a)
    \<and> step False invert_founder_index 1 2 (Fin (1/4)) False False [1, 2, 3, 4, 5, 6, 7, 8]
        = Inr (Fin b)
    \<and> step False invert_founder_index 1 3 (Fin (1/4)) False False [1, 2, 3, 4, 5, 6, 7, 8]
        = Inr (Fin c)
    \<and> a \<ge> b \<and> b \<ge> c"
  using step_order [of "1/4" invert_founder_index "[1, 2, 3, 4, 5, 6, 7, 8]" 5 1 2 1 3
      False False False]
  by (simp add: invert_identity c_div_def)

text \<open>
  C7: \<open>step\<close> is symmetric in its two genotypes, for every recombination fraction and
  every cross order (and so for \<open>r\<close> in \<open>[0, 1/2]\<close> and genotypes in \<open>1..8\<close>).
\<close>

theorem step_symmetric:
  "step nodebug ifi gl gr rec_frac is_x_chr is_female cross_info =
   step nodebug ifi gr gl rec_frac is_x_chr is_female cross_info"
  by (cases "vget (ifi cross_info) (gl - 1)"; cases "vget (ifi cross_info) (gr - 1)")
     (auto simp: step_def bind_err_def Let_def dest: vget_Inl)

theorem step_symmetric_witness:
  "step False invert_founder_index 1 3 (Fin (1/4)) False False [1, 2, 3, 4, 5, 6, 7, 8]
     = Inr (Fin (ln (1/4) - ln 2 - ln (3/2)))
   \<and> step False invert_founder_index 3 1 (Fin (1/4)) False False [1, 2, 3, 4, 5, 6, 7, 8]
     = Inr (Fin (ln (1/4) - ln 2 - ln (3/2)))"
  using step_symmetric [of False invert_founder_index 3 1 "Fin (1/4)" False False
      "[1, 2, 3, 4, 5, 6, 7, 8]"]
  by (simp add: step_def check_geno_def invert_identity vget_def bind_err_def c_div_def dbl_ops)




end
